theory Spec2Isabelle
  imports Main "HOL-Library.AList"
begin

section \<open>Flag squashing (Context.squash\_flags, core/runner.py)\<close>

text \<open>
  A Python \<open>str\<close> is modelled as a \<open>string\<close>, a list of characters; \<open>ord\<close> is the code
  point of a character. Characters outside Latin-1 are not represented: every one of
  them has a code point above 90 and is treated by the code like any other such character.
\<close>

definition ord :: "char \<Rightarrow> nat" where
  "ord c = of_char c"

text \<open>
  \<open>str.lower\<close> on one character. \<open>squash_flags\<close> applies it only to characters of code
  point at most 90; among those it moves the capitals \<open>A\<close> .. \<open>Z\<close> (65 .. 90) by 32 and
  leaves every other character as it is.
\<close>

definition lower :: "char \<Rightarrow> char" where
  "lower c = (if 65 \<le> ord c \<and> ord c \<le> 90 then char_of (ord c + 32) else c)"

text \<open>
  The loop \<open>for flag in self.flags\<close> iterates over the string object that \<open>self.flags\<close>
  held when the loop started (first argument: what is left of it), while the body rebinds
  \<open>self.flags\<close> (second argument). \<open>c not in bad\<close> tests a single character against the
  two-character string \<open>bad\<close>.
\<close>

fun squash_loop :: "string \<Rightarrow> string \<Rightarrow> string" where
  "squash_loop [] cur = cur"
| "squash_loop (flag # rest) cur =
     squash_loop rest
       (if ord flag \<le> 90
        then (let bad = [flag] @ [lower flag] in filter (\<lambda>c. c \<notin> set bad) cur)
        else cur)"

definition squash_flags :: "string \<Rightarrow> string" where
  "squash_flags fl = squash_loop fl fl"

section \<open>Running a process (Runner.\_\_call\_\_, core/runner.py)\<close>

subsection \<open>Values\<close>

text \<open>
  The \<open>action\<close> argument is a command string (run through a shell) or a list of
  argument tokens.
\<close>

datatype action = Cmd string | Argv "string list"

fun is_str :: "action \<Rightarrow> bool" where
  "is_str (Cmd _) = True"
| "is_str (Argv _) = False"

text \<open>
  What the keyword arguments of \<open>Popen\<close> hold here: the streams of the embedding
  process, the markers \<open>subprocess.PIPE\<close> and \<open>subprocess.STDOUT\<close>, a handle on the
  null device (numbered in the order of opening), the \<open>stdout\<close> attribute of a spawned
  process (numbered in the order of spawning); booleans, strings and actions.
\<close>

datatype stream = SysStdout | SysStderr | PIPE | STDOUT | Devnull nat | ProcStdout nat

datatype kwval = VBool bool | VStr string | VStream stream | VAction action

text \<open>A \<open>dict\<close> with string keys, in insertion order.\<close>

type_synonym kwargs = "(string \<times> kwval) list"

text \<open>Truth value of an object, as \<open>if popen_kws['shell']:\<close> takes it.\<close>

fun truthy :: "kwval \<Rightarrow> bool" where
  "truthy (VBool b) = b"
| "truthy (VStr s) = (s \<noteq> [])"
| "truthy (VStream _) = True"
| "truthy (VAction (Cmd s)) = (s \<noteq> [])"
| "truthy (VAction (Argv ts)) = (ts \<noteq> [])"

subsection \<open>Context\<close>

text \<open>
  The attributes of the class \<open>Context\<close> that \<open>__call__\<close> fills from its parameters of the same
  names. Files are represented by their paths. The attribute \<open>action\<close> is never passed
  and stays \<open>None\<close>, \<open>fm\<close> is the runner's, and \<open>file\<close> is computed from \<open>files\<close>.
\<close>

record run_context =
  app :: string
  mode :: int
  flags :: string
  files :: "string list option"
  wait :: bool
  popen_kws :: kwargs

text \<open>\<open>files and files[0] or None\<close>: file paths are non-empty strings.\<close>

fun context_file :: "string list option \<Rightarrow> string option" where
  "context_file None = None"
| "context_file (Some []) = None"
| "context_file (Some (f # _)) = Some f"

text \<open>
  The parameters of \<open>Runner.__call__\<close>: those that go into the context, and \<open>action\<close>
  and \<open>try_app_first\<close>.
\<close>

record call = run_context +
  action :: "action option"
  try_app_first :: bool

subsection \<open>The runner and what it acts on\<close>

text \<open>The UI collaborator: whether its two methods raise.\<close>

datatype ui = UI (suspend_raises: bool) (initialize_raises: bool)

datatype logmsg = Msg string | FailedToRun action string

datatype event =
    UiSuspend
  | UiInitialize
  | LogException
  | OpenDevnull nat
  | EmitBefore kwargs run_context
  | EmitAfter kwargs run_context "string option"
  | Popen kwargs
  | PopenForked kwargs bool
  | Wait nat
  | WritePrompt
  | ReadLine

text \<open>
  The attributes of the runner (\<open>fm\<close> and \<open>logfunc\<close>: whether they are set, both
  default to \<open>None\<close>), the texts its log function received, the calls it made on its
  collaborators, in order, the handles that were opened and on which \<open>close()\<close> has not
  been called, and how many handles and processes have been created so far.
\<close>

record state =
  ui :: "ui option"
  fm_set :: bool
  logfunc_set :: bool
  zombies :: "nat set"
  logged :: "logmsg list"
  events :: "event list"
  open_handles :: "nat set"
  n_handles :: nat
  n_procs :: nat

text \<open>What \<open>subprocess.Popen\<close> does with given keyword arguments.\<close>

datatype spawn = Started | OSError string | OtherError

text \<open>
  The surroundings: \<open>os.environ\<close>, \<open>sys.platform\<close>, the results of
  \<open>get_executables()\<close> and \<open>get_term()\<close>, and the behaviour of the two spawn
  primitives. \<open>Popen_forked\<close> is not part of the sources at hand; it is taken as a
  parameter that returns a boolean (false when forking is unsupported) and no handle.

  The log function, \<open>get_executables\<close>, \<open>get_term\<close>, \<open>io.open\<close>, the handlers of the two
  signals, \<open>wait\<close> and \<open>input\<close> are taken to return normally; the methods of the UI and
  \<open>Popen\<close> may raise.
\<close>

record world =
  environ :: "(string \<times> string) list"
  platform :: string
  executables :: "string list"
  get_term :: string
  popen :: "kwargs \<Rightarrow> spawn"
  popen_forked :: "kwargs \<Rightarrow> bool"

datatype exn = KeyError string | AttributeError

text \<open>What \<open>__call__\<close> returns: \<open>False\<close>, \<open>None\<close>, or a process object.\<close>

datatype ret = RFalse | RNone | RProcess nat

subsection \<open>Runner.\_log and Runner.\_activate\_ui\<close>

text \<open>
  \<open>_log\<close> calls the log function, swallows the \<open>TypeError\<close> of calling \<open>None\<close>, and
  returns \<open>False\<close>.
\<close>

definition runner_log :: "state \<Rightarrow> logmsg \<Rightarrow> state \<times> ret" where
  "runner_log s text =
     ((if logfunc_set s then s\<lparr>logged := logged s @ [text]\<rparr> else s), RFalse)"

definition log_exception :: "state \<Rightarrow> state" where
  "log_exception s = s\<lparr>events := events s @ [LogException]\<rparr>"

definition activate_ui :: "state \<Rightarrow> bool \<Rightarrow> state" where
  "activate_ui s v =
     (case ui s of
        None \<Rightarrow> s
      | Some u \<Rightarrow>
          if v then
            (let s1 = s\<lparr>events := events s @ [UiInitialize]\<rparr> in
             if initialize_raises u
             then log_exception (fst (runner_log s1 (Msg ''Failed to initialize UI'')))
             else s1)
          else
            (let s1 = s\<lparr>events := events s @ [UiSuspend]\<rparr> in
             if suspend_raises u
             then log_exception (fst (runner_log s1 (Msg ''Failed to suspend UI'')))
             else s1))"

subsection \<open>Default keyword arguments\<close>

definition has_key :: "kwargs \<Rightarrow> string \<Rightarrow> bool" where
  "has_key kws k = (map_of kws k \<noteq> None)"

definition set_default :: "string \<Rightarrow> kwval \<Rightarrow> kwargs \<Rightarrow> kwargs" where
  "set_default k v kws = (if has_key kws k then kws else AList.update k v kws)"

text \<open>
  From \<open>if 'shell' not in popen_kws\<close> to the default of \<open>stderr\<close>. The lookup
  \<open>os.environ['SHELL']\<close> raises \<open>KeyError\<close> when the variable is not set.
\<close>

definition defaults :: "world \<Rightarrow> action \<Rightarrow> kwargs \<Rightarrow> exn + kwargs" where
  "defaults w act kws0 =
     (let kws1 = set_default ''shell'' (VBool (is_str act)) kws0 in
      case (if (case map_of kws1 ''shell'' of Some v \<Rightarrow> truthy v | None \<Rightarrow> False)
            then (case map_of (environ w) ''SHELL'' of
                    None \<Rightarrow> Inl (KeyError ''SHELL'')
                  | Some sh \<Rightarrow> Inr (AList.update ''executable'' (VStr sh) kws1))
            else Inr kws1) of
        Inl e \<Rightarrow> Inl e
      | Inr kws2 \<Rightarrow>
          Inr (set_default ''stderr'' (VStream SysStderr)
                (set_default ''stdout'' (VStream SysStdout) kws2)))"

subsection \<open>Evaluation of the flags\<close>

text \<open>The local variables of \<open>__call__\<close>; \<open>popen_kws\<close> is the dictionary of the context.\<close>

record locals =
  act :: action
  ctx :: run_context
  toggle_ui :: bool
  pipe_output :: bool
  wait_for_enter :: bool

definition set_kw :: "string \<Rightarrow> kwval \<Rightarrow> locals \<Rightarrow> locals" where
  "set_kw k v l = l\<lparr>ctx := (ctx l)\<lparr>popen_kws := AList.update k v (popen_kws (ctx l))\<rparr>\<rparr>"

definition set_wait :: "bool \<Rightarrow> locals \<Rightarrow> locals" where
  "set_wait b l = l\<lparr>ctx := (ctx l)\<lparr>wait := b\<rparr>\<rparr>"

definition has_flag :: "char \<Rightarrow> locals \<Rightarrow> bool" where
  "has_flag c l = (c \<in> set (flags (ctx l)))"

definition flag_p :: "locals \<Rightarrow> locals" where
  "flag_p l =
     (if has_flag CHR ''p'' l
      then set_wait False
             ((set_kw ''stderr'' (VStream STDOUT) (set_kw ''stdout'' (VStream PIPE) l))
                \<lparr>toggle_ui := False, pipe_output := True\<rparr>)
      else l)"

text \<open>
  The two \<open>io.open(os.devnull, ...)\<close> calls, the writable handle first. Nothing in
  \<open>__call__\<close> closes them.
\<close>

definition flag_s :: "state \<Rightarrow> locals \<Rightarrow> state \<times> locals" where
  "flag_s s l =
     (if has_flag CHR ''s'' l
      then (let devnull_writable = n_handles s;
                devnull_readable = Suc (n_handles s)
            in (s\<lparr>events := events s @ [OpenDevnull devnull_writable, OpenDevnull devnull_readable],
                  open_handles := insert devnull_readable (insert devnull_writable (open_handles s)),
                  n_handles := Suc (Suc (n_handles s))\<rparr>,
                (set_kw ''stdin'' (VStream (Devnull devnull_readable))
                  (set_kw ''stderr'' (VStream (Devnull devnull_writable))
                    (set_kw ''stdout'' (VStream (Devnull devnull_writable)) l)))
                  \<lparr>toggle_ui := False\<rparr>))
      else (s, l))"

definition flag_f :: "locals \<Rightarrow> locals" where
  "flag_f l = (if has_flag CHR ''f'' l then set_wait False (l\<lparr>toggle_ui := False\<rparr>) else l)"

definition flag_w :: "locals \<Rightarrow> locals" where
  "flag_w l =
     (if has_flag CHR ''w'' l
      then (if \<not> pipe_output l \<and> wait (ctx l) then l\<lparr>wait_for_enter := True\<rparr> else l)
      else l)"

definition sudo_action :: "bool \<Rightarrow> action \<Rightarrow> action" where
  "sudo_action f_flag a =
     (case a of
        Cmd c \<Rightarrow> Cmd (''sudo '' @ (if f_flag then ''-b '' else '''') @ c)
      | Argv ts \<Rightarrow> Argv ([''sudo''] @ (if f_flag then [''-b''] else []) @ ts))"

definition flag_r :: "world \<Rightarrow> state \<Rightarrow> locals \<Rightarrow> state \<times> (ret + locals)" where
  "flag_r w s l =
     (if has_flag CHR ''r'' l
      then (if ''sudo'' \<notin> set (executables w)
            then (case runner_log s (Msg ''Can not run with 'r' flag, sudo is not installed!'') of
                    (s1, r) \<Rightarrow> (s1, Inl r))
            else (s, Inr (set_wait True
                            (l\<lparr>act := sudo_action (has_flag CHR ''f'' l) (act l),
                               toggle_ui := True\<rparr>))))
      else (s, Inr l))"

definition display_found :: "world \<Rightarrow> bool" where
  "display_found w =
     (map_of (environ w) ''WAYLAND_DISPLAY'' \<noteq> None \<or> platform w = ''darwin''
      \<or> map_of (environ w) ''DISPLAY'' \<noteq> None)"

definition term_action :: "string \<Rightarrow> action \<Rightarrow> action" where
  "term_action term a =
     (case a of
        Cmd c \<Rightarrow> Cmd (term @ '' -e '' @ c)
      | Argv ts \<Rightarrow> Argv ([term, ''-e''] @ ts))"

definition flag_t :: "world \<Rightarrow> state \<Rightarrow> locals \<Rightarrow> state \<times> (ret + locals)" where
  "flag_t w s l =
     (if has_flag CHR ''t'' l
      then (if \<not> display_found w
            then (case runner_log s (Msg ''Can not run with 't' flag, no display found!'') of
                    (s1, r) \<Rightarrow> (s1, Inl r))
            else (s, Inr (set_wait False
                            (l\<lparr>act := term_action (get_term w) (act l),
                               toggle_ui := False\<rparr>))))
      else (s, Inr l))"

subsection \<open>Runner.\_\_call\_\_\<close>

text \<open>
  How the part of \<open>__call__\<close> before the spawn ends: with an exception, with a
  \<open>return\<close>, or with the local variables set for the spawn.
\<close>

datatype 'a outcome = Raised exn | Returned ret | Continue 'a

text \<open>
  \<open>Context(app=app, files=files, ...)\<close> followed by \<open>context.squash_flags()\<close>; nothing
  reads the flags in between.
\<close>

definition new_context :: "call \<Rightarrow> run_context" where
  "new_context a =
     \<lparr>app = app a, mode = mode a, flags = squash_flags (flags a), files = files a,
      wait = wait a, popen_kws = popen_kws a\<rparr>"

text \<open>The local variables as they are initialised before the flags are evaluated.\<close>

definition initial_locals :: "action \<Rightarrow> run_context \<Rightarrow> locals" where
  "initial_locals act0 c =
     \<lparr>act = act0, ctx = c, toggle_ui = True, pipe_output = False, wait_for_enter = False\<rparr>"

text \<open>From the creation of the context to \<open>popen_kws['args'] = action\<close>.\<close>

definition prepare :: "world \<Rightarrow> state \<Rightarrow> call \<Rightarrow> state \<times> locals outcome" where
  "prepare w s a =
     (case action a of
        None \<Rightarrow>
          (case runner_log s (Msg ''No way of determining the action!'') of
             (s1, r) \<Rightarrow> (s1, Returned r))
      | Some act0 \<Rightarrow>
          (case defaults w act0 (popen_kws (new_context a)) of
             Inl e \<Rightarrow> (s, Raised e)
           | Inr kws \<Rightarrow>
               (case flag_s s (flag_p (initial_locals act0 ((new_context a)\<lparr>popen_kws := kws\<rparr>))) of
                  (s1, l1) \<Rightarrow>
                    (case flag_r w s1 (flag_w (flag_f l1)) of
                       (s2, Inl r) \<Rightarrow> (s2, Returned r)
                     | (s2, Inr l2) \<Rightarrow>
                         (case flag_t w s2 l2 of
                            (s3, Inl r) \<Rightarrow> (s3, Returned r)
                          | (s3, Inr l3) \<Rightarrow>
                              (s3, Continue (set_kw ''args'' (VAction (act l3)) l3)))))))"

text \<open>\<open>sys.stdout.write("Press ENTER to continue")\<close> and \<open>input()\<close>.\<close>

definition press_enter :: "state \<Rightarrow> locals \<Rightarrow> state" where
  "press_enter s l =
     (if wait_for_enter l then s\<lparr>events := events s @ [WritePrompt, ReadLine]\<rparr> else s)"

text \<open>
  The \<open>else\<close> clause of the inner \<open>try\<close>. On \<open>None\<close>, \<open>process.wait()\<close> raises an
  \<open>AttributeError\<close> that skips the rest of the clause and is discarded by the \<open>return\<close>
  of the \<open>finally\<close> clause.
\<close>

definition after_spawn :: "state \<Rightarrow> locals \<Rightarrow> nat option \<Rightarrow> state" where
  "after_spawn s l process =
     (if wait (ctx l)
      then (case process of
              None \<Rightarrow> s
            | Some p \<Rightarrow> press_enter (s\<lparr>events := events s @ [Wait p]\<rparr>) l)
      else (case process of
              None \<Rightarrow> press_enter s l
            | Some p \<Rightarrow> press_enter (s\<lparr>zombies := insert p (zombies s)\<rparr>) l))"

text \<open>
  The inner \<open>try\<close> statement: the new state, the variable \<open>process\<close> and the variable
  \<open>error\<close>. The result of \<open>Popen_forked\<close> is not bound to anything. An exception of
  \<open>Popen\<close> other than \<open>OSError\<close> leaves for the \<open>finally\<close> clause, whose \<open>return\<close>
  discards it.
\<close>

definition spawn_process :: "world \<Rightarrow> state \<Rightarrow> locals \<Rightarrow> state \<times> nat option \<times> string option" where
  "spawn_process w s l =
     (let kws = popen_kws (ctx l) in
      if has_flag CHR ''f'' l \<and> \<not> has_flag CHR ''r'' l
      then (after_spawn (s\<lparr>events := events s @ [PopenForked kws (popen_forked w kws)]\<rparr>) l None,
            None, None)
      else (let s1 = s\<lparr>events := events s @ [Popen kws]\<rparr> in
            case popen w kws of
              OSError ex \<Rightarrow> (fst (runner_log s1 (FailedToRun (act l) ex)), None, Some ex)
            | OtherError \<Rightarrow> (s1, None, None)
            | Started \<Rightarrow>
                (let process = n_procs s1 in
                 (after_spawn (s1\<lparr>n_procs := Suc process\<rparr>) l (Some process),
                  Some process, None))))"

text \<open>
  From \<open>if toggle_ui\<close> to the end of the \<open>finally\<close> clause, up to its two \<open>return\<close>
  statements: the state and the variable \<open>process\<close>. When \<open>self.fm\<close> is \<open>None\<close>, the
  first \<open>signal_emit\<close> raises \<open>AttributeError\<close> in the \<open>try\<close> block and the second
  raises it again in the \<open>finally\<close> clause, before anything else there.
\<close>

definition run :: "world \<Rightarrow> state \<Rightarrow> locals \<Rightarrow> state \<times> (exn + nat option)" where
  "run w s l =
     (let s1 = (if toggle_ui l then activate_ui s False else s) in
      if \<not> fm_set s1 then (s1, Inl AttributeError)
      else (case spawn_process w
                   (s1\<lparr>events := events s1 @ [EmitBefore (popen_kws (ctx l)) (ctx l)]\<rparr>) l of
              (s2, process, error) \<Rightarrow>
                (let s3 = s2\<lparr>events := events s2 @ [EmitAfter (popen_kws (ctx l)) (ctx l) error]\<rparr>;
                     s4 = (if toggle_ui l then activate_ui s3 True else s3)
                 in (s4, Inr process))))"

text \<open>The call \<open>self(action='less', app='pager', try_app_first=True, stdin=process.stdout)\<close>.\<close>

definition pager_call :: "nat \<Rightarrow> call" where
  "pager_call process =
     \<lparr>app = ''pager'', mode = 0, flags = '''', files = None, wait = True,
      popen_kws = [(''stdin'', VStream (ProcStdout process))],
      action = Some (Cmd ''less''), try_app_first = True\<rparr>"

lemma prepare_pipe_output:
  assumes "prepare w s a = (s1, Continue l)" and "pipe_output l"
  shows "CHR ''p'' \<in> set (squash_flags (flags a))"
  using assms
  by (auto simp: prepare_def new_context_def initial_locals_def flag_p_def flag_s_def
        flag_f_def flag_w_def flag_r_def flag_t_def set_kw_def set_wait_def has_flag_def
        runner_log_def Let_def
      split: option.splits sum.splits if_splits prod.splits)

function execute :: "world \<Rightarrow> state \<Rightarrow> call \<Rightarrow> state \<times> (exn + ret)" where
  "execute w s a =
     (case prepare w s a of
        (s1, Raised e) \<Rightarrow> (s1, Inl e)
      | (s1, Returned r) \<Rightarrow> (s1, Inr r)
      | (s1, Continue l) \<Rightarrow>
          (case run w s1 l of
             (s2, Inl e) \<Rightarrow> (s2, Inl e)
           | (s2, Inr None) \<Rightarrow> (s2, Inr RNone)
           | (s2, Inr (Some process)) \<Rightarrow>
               if pipe_output l then execute w s2 (pager_call process)
               else (s2, Inr (RProcess process))))"
  by pat_completeness auto
termination
proof (relation "measure (\<lambda>(w, s, a). if CHR ''p'' \<in> set (squash_flags (flags a)) then 1 else 0)")
  show "wf (measure (\<lambda>(w, s, a). if CHR ''p'' \<in> set (squash_flags (flags a)) then 1 else 0))"
    by simp
next
  fix w s a x1 x2 l y1 y2 y3 process
  assume "(x1, x2) = prepare w s a" and "x2 = Continue l" and "pipe_output l"
  then have "CHR ''p'' \<in> set (squash_flags (flags a))"
    using prepare_pipe_output [of w s a x1 l] by simp
  then show "((w, y1, pager_call process), (w, s, a))
      \<in> measure (\<lambda>(w, s, a). if CHR ''p'' \<in> set (squash_flags (flags a)) then 1 else 0)"
    by (simp add: pager_call_def squash_flags_def)
qed

declare execute.simps [simp del]

subsection \<open>Construction and example inputs\<close>

text \<open>
  \<open>Runner.__init__\<close>, with \<open>logfunc\<close> and \<open>fm\<close> given as whether they are set, on a
  process that has opened and spawned nothing yet.
\<close>

definition Runner_init :: "ui option \<Rightarrow> bool \<Rightarrow> bool \<Rightarrow> state" where
  "Runner_init u logfunc fm =
     \<lparr>ui = u, fm_set = fm, logfunc_set = logfunc, zombies = {}, logged = [], events = [],
      open_handles = {}, n_handles = 0, n_procs = 0\<rparr>"

text \<open>The default values of the parameters of \<open>__call__\<close>.\<close>

definition default_call :: call where
  "default_call =
     \<lparr>app = ''default'', mode = 0, flags = '''', files = None, wait = True, popen_kws = [],
      action = None, try_app_first = False\<rparr>"

text \<open>
  A host for the examples, with the given environment and executables, on which both spawn
  primitives succeed.
\<close>

definition host :: "(string \<times> string) list \<Rightarrow> string list \<Rightarrow> world" where
  "host env exes =
     \<lparr>environ = env, platform = ''linux'', executables = exes, get_term = ''xterm'',
      popen = (\<lambda>_. Started), popen_forked = (\<lambda>_. True)\<rparr>"

subsection \<open>Auxiliary definitions\<close>

text \<open>
  The local variables and the state after the flags \<open>p\<close>, \<open>s\<close>, \<open>f\<close> and \<open>w\<close>, when
  the creation of the default keyword arguments gave \<open>kws\<close>.
\<close>

definition psfw :: "state \<Rightarrow> call \<Rightarrow> action \<Rightarrow> kwargs \<Rightarrow> locals" where
  "psfw s a act0 kws =
     flag_w (flag_f (snd (flag_s s
       (flag_p (initial_locals act0 ((new_context a)\<lparr>popen_kws := kws\<rparr>))))))"

definition after_s :: "state \<Rightarrow> call \<Rightarrow> action \<Rightarrow> kwargs \<Rightarrow> state" where
  "after_s s a act0 kws =
     fst (flag_s s (flag_p (initial_locals act0 ((new_context a)\<lparr>popen_kws := kws\<rparr>))))"

text \<open>The state in which the \<open>try\<close> statement starts.\<close>

definition before_try :: "state \<Rightarrow> locals \<Rightarrow> state" where
  "before_try s l = (if toggle_ui l then activate_ui s False else s)"

section \<open>Properties of flag squashing\<close>

lemma squash_loop_filter:
  "squash_loop ys cur =
     filter (\<lambda>c. \<not> (\<exists>f \<in> set ys. ord f \<le> 90 \<and> (c = f \<or> c = lower f))) cur"
proof (induction ys arbitrary: cur)
  case Nil
  show ?case by simp
next
  case (Cons y ys)
  show ?case
    by (simp add: Cons.IH Let_def)
qed

lemma squash_loop_no_capital:
  "\<forall>f \<in> set ys. 90 < ord f \<Longrightarrow> squash_loop ys cur = cur"
  by (induction ys arbitrary: cur) auto

lemma squash_flags_above_90:
  "c \<in> set (squash_flags xs) \<Longrightarrow> 90 < ord c"
  unfolding squash_flags_def squash_loop_filter
  by (auto simp: not_le [symmetric])

lemmas char_eval = ord_def lower_def char_of_def bit_Suc_0_iff

text \<open>
  Claim C6. Squashing is idempotent: squashing the result of a squash gives that result
  again, for every flag sequence.
\<close>

theorem squash_flags_idempotent:
  "squash_flags (squash_flags x) = squash_flags x"
proof -
  have "\<forall>f \<in> set (squash_flags x). 90 < ord f"
    by (simp add: squash_flags_above_90)
  then have "squash_loop (squash_flags x) (squash_flags x) = squash_flags x"
    by (rule squash_loop_no_capital)
  then show ?thesis
    by (simp add: squash_flags_def)
qed

theorem squash_flags_idempotent_witness:
  "squash_flags (squash_flags ''fsFf'') = ''s'' \<and> squash_flags ''fsFf'' = ''s''"
proof -
  have e: "squash_flags ''fsFf'' = ''s''"
    by (simp add: squash_flags_def char_eval)
  show ?thesis
    using squash_flags_idempotent [of "''fsFf''"] by (simp add: e)
qed

text \<open>
  Claim C7. When a flag sequence contains a capital letter (code point 65 to 90, the
  uppercase form of a flag) together with its lowercase counterpart, neither of the two
  characters occurs in the squashed result, however often they occurred.
\<close>

theorem squash_flags_removes_pair:
  assumes "65 \<le> ord u" and "ord u \<le> 90"
    and "u \<in> set xs" and "lower u \<in> set xs"
  shows "u \<notin> set (squash_flags xs) \<and> lower u \<notin> set (squash_flags xs)"
proof -
  have bad: "\<exists>f \<in> set xs. ord f \<le> 90 \<and> (c = f \<or> c = lower f)"
    if "c = u \<or> c = lower u" for c
    using that assms(2,3) by blast
  show ?thesis
    unfolding squash_flags_def squash_loop_filter
    using bad by simp
qed

theorem squash_flags_removes_pair_witness:
  "65 \<le> ord CHR ''F'' \<and> ord CHR ''F'' \<le> 90 \<and> lower CHR ''F'' = CHR ''f''
   \<and> CHR ''F'' \<in> set ''fsFf'' \<and> CHR ''f'' \<in> set ''fsFf''
   \<and> squash_flags ''fsFf'' = ''s''
   \<and> CHR ''F'' \<notin> set (squash_flags ''fsFf'') \<and> CHR ''f'' \<notin> set (squash_flags ''fsFf'')"
proof -
  have l: "lower CHR ''F'' = CHR ''f''"
    by (simp add: char_eval)
  have e: "squash_flags ''fsFf'' = ''s''"
    by (simp add: squash_flags_def char_eval)
  show ?thesis
    using squash_flags_removes_pair [of "CHR ''F''" "''fsFf''"]
    by (simp add: l e ord_def)
qed

text \<open>
  Claim C9. Squashing keeps exactly the characters that are neither a character of code
  point at most 90 occurring in the input (capital, digit or punctuation alike) nor the
  lowercase counterpart of one; so every character of the squashed result has a code
  point above 90.
\<close>

theorem squash_flags_only_above_90:
  "squash_flags xs =
     filter (\<lambda>c. \<not> (\<exists>f \<in> set xs. ord f \<le> 90 \<and> (c = f \<or> c = lower f))) xs
   \<and> (\<forall>c \<in> set (squash_flags xs). 90 < ord c)"
proof
  show "squash_flags xs =
     filter (\<lambda>c. \<not> (\<exists>f \<in> set xs. ord f \<le> 90 \<and> (c = f \<or> c = lower f))) xs"
    by (simp add: squash_flags_def squash_loop_filter)
  show "\<forall>c \<in> set (squash_flags xs). 90 < ord c"
    by (simp add: squash_flags_above_90)
qed

theorem squash_flags_only_above_90_witness:
  "squash_flags ''s1f!F1'' = ''s'' \<and> 90 < ord CHR ''s''"
proof -
  have e: "squash_flags ''s1f!F1'' = ''s''"
    by (simp add: squash_flags_def char_eval)
  show ?thesis
    using squash_flags_only_above_90 [of "''s1f!F1''"]
    by (simp add: e)
qed

section \<open>Properties of the flag evaluation\<close>

lemma has_flag_set_kw [simp]: "has_flag c (set_kw k v l) = has_flag c l"
  by (simp add: has_flag_def set_kw_def)

lemma has_flag_set_wait [simp]: "has_flag c (set_wait b l) = has_flag c l"
  by (simp add: has_flag_def set_wait_def)

lemma has_flag_updates [simp]:
  "has_flag c (l\<lparr>toggle_ui := x\<rparr>) = has_flag c l"
  "has_flag c (l\<lparr>pipe_output := x\<rparr>) = has_flag c l"
  "has_flag c (l\<lparr>wait_for_enter := x\<rparr>) = has_flag c l"
  "has_flag c (l\<lparr>act := y\<rparr>) = has_flag c l"
  by (simp_all add: has_flag_def)

lemma set_kw_fields [simp]:
  "wait (ctx (set_kw k v l)) = wait (ctx l)"
  "toggle_ui (set_kw k v l) = toggle_ui l"
  "pipe_output (set_kw k v l) = pipe_output l"
  "wait_for_enter (set_kw k v l) = wait_for_enter l"
  "act (set_kw k v l) = act l"
  by (simp_all add: set_kw_def)

lemma set_wait_fields [simp]:
  "wait (ctx (set_wait b l)) = b"
  "toggle_ui (set_wait b l) = toggle_ui l"
  "pipe_output (set_wait b l) = pipe_output l"
  "wait_for_enter (set_wait b l) = wait_for_enter l"
  "act (set_wait b l) = act l"
  by (simp_all add: set_wait_def)

lemma flag_p_fields [simp]:
  "has_flag c (flag_p l) = has_flag c l"
  "wait (ctx (flag_p l)) = (\<not> has_flag CHR ''p'' l \<and> wait (ctx l))"
  "toggle_ui (flag_p l) = (\<not> has_flag CHR ''p'' l \<and> toggle_ui l)"
  "pipe_output (flag_p l) = (has_flag CHR ''p'' l \<or> pipe_output l)"
  "wait_for_enter (flag_p l) = wait_for_enter l"
  "act (flag_p l) = act l"
  by (simp_all add: flag_p_def)

lemma flag_s_locals [simp]:
  "has_flag c (snd (flag_s s l)) = has_flag c l"
  "wait (ctx (snd (flag_s s l))) = wait (ctx l)"
  "toggle_ui (snd (flag_s s l)) = (\<not> has_flag CHR ''s'' l \<and> toggle_ui l)"
  "pipe_output (snd (flag_s s l)) = pipe_output l"
  "wait_for_enter (snd (flag_s s l)) = wait_for_enter l"
  "act (snd (flag_s s l)) = act l"
  by (simp_all add: flag_s_def Let_def)

lemma flag_s_state [simp]:
  "ui (fst (flag_s s l)) = ui s"
  "fm_set (fst (flag_s s l)) = fm_set s"
  "logfunc_set (fst (flag_s s l)) = logfunc_set s"
  "zombies (fst (flag_s s l)) = zombies s"
  "logged (fst (flag_s s l)) = logged s"
  "n_procs (fst (flag_s s l)) = n_procs s"
  "events (fst (flag_s s l)) =
     events s @ (if has_flag CHR ''s'' l
                 then [OpenDevnull (n_handles s), OpenDevnull (Suc (n_handles s))] else [])"
  "open_handles (fst (flag_s s l)) =
     (if has_flag CHR ''s'' l
      then insert (Suc (n_handles s)) (insert (n_handles s) (open_handles s))
      else open_handles s)"
  by (simp_all add: flag_s_def Let_def)

lemma flag_f_fields [simp]:
  "has_flag c (flag_f l) = has_flag c l"
  "wait (ctx (flag_f l)) = (\<not> has_flag CHR ''f'' l \<and> wait (ctx l))"
  "toggle_ui (flag_f l) = (\<not> has_flag CHR ''f'' l \<and> toggle_ui l)"
  "pipe_output (flag_f l) = pipe_output l"
  "wait_for_enter (flag_f l) = wait_for_enter l"
  "act (flag_f l) = act l"
  by (simp_all add: flag_f_def)

lemma flag_w_fields [simp]:
  "has_flag c (flag_w l) = has_flag c l"
  "wait (ctx (flag_w l)) = wait (ctx l)"
  "toggle_ui (flag_w l) = toggle_ui l"
  "pipe_output (flag_w l) = pipe_output l"
  "wait_for_enter (flag_w l) =
     (wait_for_enter l \<or> has_flag CHR ''w'' l \<and> \<not> pipe_output l \<and> wait (ctx l))"
  "act (flag_w l) = act l"
  by (auto simp: flag_w_def has_flag_def)

lemma initial_locals_fields [simp]:
  "has_flag c (initial_locals act0 cx) = (c \<in> set (flags cx))"
  "wait (ctx (initial_locals act0 cx)) = wait cx"
  "toggle_ui (initial_locals act0 cx)"
  "\<not> pipe_output (initial_locals act0 cx)"
  "\<not> wait_for_enter (initial_locals act0 cx)"
  "act (initial_locals act0 cx) = act0"
  by (simp_all add: initial_locals_def has_flag_def)

lemma new_context_fields [simp]:
  "flags ((new_context a)\<lparr>popen_kws := kws\<rparr>) = squash_flags (flags a)"
  "wait ((new_context a)\<lparr>popen_kws := kws\<rparr>) = wait a"
  "popen_kws (new_context a) = popen_kws a"
  by (simp_all add: new_context_def)

lemma prepare_Some:
  assumes "action a = Some act0" and "defaults w act0 (popen_kws a) = Inr kws"
  shows "prepare w s a =
     (case flag_r w (after_s s a act0 kws) (psfw s a act0 kws) of
        (s2, Inl r) \<Rightarrow> (s2, Returned r)
      | (s2, Inr l2) \<Rightarrow>
          (case flag_t w s2 l2 of
             (s3, Inl r) \<Rightarrow> (s3, Returned r)
           | (s3, Inr l3) \<Rightarrow> (s3, Continue (set_kw ''args'' (VAction (act l3)) l3))))"
  using assms by (simp add: prepare_def psfw_def after_s_def split: prod.splits)

lemma psfw_fields [simp]:
  "has_flag c (psfw s a act0 kws) = (c \<in> set (squash_flags (flags a)))"
  "wait (ctx (psfw s a act0 kws)) =
     (CHR ''f'' \<notin> set (squash_flags (flags a)) \<and> CHR ''p'' \<notin> set (squash_flags (flags a)) \<and> wait a)"
  "toggle_ui (psfw s a act0 kws) =
     (CHR ''f'' \<notin> set (squash_flags (flags a)) \<and> CHR ''s'' \<notin> set (squash_flags (flags a))
      \<and> CHR ''p'' \<notin> set (squash_flags (flags a)))"
  "pipe_output (psfw s a act0 kws) = (CHR ''p'' \<in> set (squash_flags (flags a)))"
  "wait_for_enter (psfw s a act0 kws) =
     (CHR ''w'' \<in> set (squash_flags (flags a)) \<and> CHR ''p'' \<notin> set (squash_flags (flags a))
      \<and> CHR ''f'' \<notin> set (squash_flags (flags a)) \<and> wait a)"
  "act (psfw s a act0 kws) = act0"
  by (auto simp: psfw_def)

lemma after_s_fields [simp]:
  "ui (after_s s a act0 kws) = ui s"
  "fm_set (after_s s a act0 kws) = fm_set s"
  "logfunc_set (after_s s a act0 kws) = logfunc_set s"
  "zombies (after_s s a act0 kws) = zombies s"
  "logged (after_s s a act0 kws) = logged s"
  "n_procs (after_s s a act0 kws) = n_procs s"
  "events (after_s s a act0 kws) =
     events s @ (if CHR ''s'' \<in> set (squash_flags (flags a))
                 then [OpenDevnull (n_handles s), OpenDevnull (Suc (n_handles s))] else [])"
  "open_handles (after_s s a act0 kws) =
     (if CHR ''s'' \<in> set (squash_flags (flags a))
      then insert (Suc (n_handles s)) (insert (n_handles s) (open_handles s))
      else open_handles s)"
  by (simp_all add: after_s_def)

text \<open>How a call that reaches the spawn got there.\<close>

lemma prepare_ContinueE:
  assumes "prepare w s a = (s1, Continue l)"
  obtains act0 kws l2 l3 where
    "action a = Some act0" and "defaults w act0 (popen_kws a) = Inr kws"
    and "flag_r w (after_s s a act0 kws) (psfw s a act0 kws) = (after_s s a act0 kws, Inr l2)"
    and "flag_t w (after_s s a act0 kws) l2 = (after_s s a act0 kws, Inr l3)"
    and "s1 = after_s s a act0 kws"
    and "l = set_kw ''args'' (VAction (act l3)) l3"
proof -
  obtain act0 where a: "action a = Some act0"
    using assms by (cases "action a") (auto simp: prepare_def runner_log_def)
  obtain kws where k: "defaults w act0 (popen_kws a) = Inr kws"
    using assms a by (cases "defaults w act0 (popen_kws a)") (auto simp: prepare_def)
  obtain s2 l2 where r: "flag_r w (after_s s a act0 kws) (psfw s a act0 kws) = (s2, Inr l2)"
    using assms by (auto simp: prepare_Some [OF a k] split: prod.splits sum.splits)
  then have s2: "s2 = after_s s a act0 kws"
    by (auto simp: flag_r_def runner_log_def split: if_splits)
  obtain s3 l3 where t: "flag_t w s2 l2 = (s3, Inr l3)"
    using assms r by (auto simp: prepare_Some [OF a k] split: prod.splits sum.splits)
  then have s3: "s3 = s2"
    by (auto simp: flag_t_def runner_log_def split: if_splits)
  have "s1 = s3" and "l = set_kw ''args'' (VAction (act l3)) l3"
    using assms r t by (auto simp: prepare_Some [OF a k])
  with a k r t s2 s3 show thesis
    by (intro that [of act0 kws l2 l3]) auto
qed

lemma flag_r_Inr:
  assumes "flag_r w s l = (s', Inr l2)"
  shows "has_flag c l2 = has_flag c l"
    and "wait (ctx l2) = (has_flag CHR ''r'' l \<or> wait (ctx l))"
    and "toggle_ui l2 = (has_flag CHR ''r'' l \<or> toggle_ui l)"
    and "pipe_output l2 = pipe_output l"
    and "wait_for_enter l2 = wait_for_enter l"
    and "has_flag CHR ''r'' l \<longrightarrow> ''sudo'' \<in> set (executables w)"
  using assms by (auto simp: flag_r_def runner_log_def split: if_splits)

lemma flag_t_Inr:
  assumes "flag_t w s l = (s', Inr l3)"
  shows "has_flag c l3 = has_flag c l"
    and "wait (ctx l3) = (\<not> has_flag CHR ''t'' l \<and> wait (ctx l))"
    and "toggle_ui l3 = (\<not> has_flag CHR ''t'' l \<and> toggle_ui l)"
    and "pipe_output l3 = pipe_output l"
    and "wait_for_enter l3 = wait_for_enter l"
    and "has_flag CHR ''t'' l \<longrightarrow> display_found w"
  using assms by (auto simp: flag_t_def runner_log_def split: if_splits)

text \<open>The local variables of a call that reaches the spawn, in terms of its squashed flags.\<close>

lemma prepare_Continue_locals:
  assumes "prepare w s a = (s1, Continue l)"
  shows "has_flag c l = (c \<in> set (squash_flags (flags a)))"
    and "pipe_output l = (CHR ''p'' \<in> set (squash_flags (flags a)))"
    and "wait (ctx l) =
      (CHR ''t'' \<notin> set (squash_flags (flags a)) \<and>
       (CHR ''r'' \<in> set (squash_flags (flags a)) \<or>
        CHR ''f'' \<notin> set (squash_flags (flags a)) \<and> CHR ''p'' \<notin> set (squash_flags (flags a)) \<and> wait a))"
    and "toggle_ui l =
      (CHR ''t'' \<notin> set (squash_flags (flags a)) \<and>
       (CHR ''r'' \<in> set (squash_flags (flags a)) \<or>
        CHR ''f'' \<notin> set (squash_flags (flags a)) \<and> CHR ''s'' \<notin> set (squash_flags (flags a))
        \<and> CHR ''p'' \<notin> set (squash_flags (flags a))))"
    and "wait_for_enter l =
      (CHR ''w'' \<in> set (squash_flags (flags a)) \<and> CHR ''p'' \<notin> set (squash_flags (flags a))
       \<and> CHR ''f'' \<notin> set (squash_flags (flags a)) \<and> wait a)"
proof -
  obtain act0 kws l2 l3 where
    r: "flag_r w (after_s s a act0 kws) (psfw s a act0 kws) = (after_s s a act0 kws, Inr l2)"
    and t: "flag_t w (after_s s a act0 kws) l2 = (after_s s a act0 kws, Inr l3)"
    and l: "l = set_kw ''args'' (VAction (act l3)) l3"
    using assms by (rule prepare_ContinueE)
  note rs = flag_r_Inr [OF r] and ts = flag_t_Inr [OF t]
  show "has_flag c l = (c \<in> set (squash_flags (flags a)))"
    by (simp add: l ts(1) rs(1))
  show "pipe_output l = (CHR ''p'' \<in> set (squash_flags (flags a)))"
    by (simp add: l ts(4) rs(4))
  show "wait (ctx l) =
      (CHR ''t'' \<notin> set (squash_flags (flags a)) \<and>
       (CHR ''r'' \<in> set (squash_flags (flags a)) \<or>
        CHR ''f'' \<notin> set (squash_flags (flags a)) \<and> CHR ''p'' \<notin> set (squash_flags (flags a)) \<and> wait a))"
    by (simp add: l ts(1,2) rs(1,2))
  show "toggle_ui l =
      (CHR ''t'' \<notin> set (squash_flags (flags a)) \<and>
       (CHR ''r'' \<in> set (squash_flags (flags a)) \<or>
        CHR ''f'' \<notin> set (squash_flags (flags a)) \<and> CHR ''s'' \<notin> set (squash_flags (flags a))
        \<and> CHR ''p'' \<notin> set (squash_flags (flags a))))"
    by (simp add: l ts(1,3) rs(1,3))
  show "wait_for_enter l =
      (CHR ''w'' \<in> set (squash_flags (flags a)) \<and> CHR ''p'' \<notin> set (squash_flags (flags a))
       \<and> CHR ''f'' \<notin> set (squash_flags (flags a)) \<and> wait a)"
    by (simp add: l ts(5) rs(5))
qed

lemma prepare_Continue_state:
  assumes "prepare w s a = (s1, Continue l)"
  shows "fm_set s1 = fm_set s" and "zombies s1 = zombies s" and "ui s1 = ui s"
    and "logged s1 = logged s"
    and "open_handles s1 =
      (if CHR ''s'' \<in> set (squash_flags (flags a))
       then insert (Suc (n_handles s)) (insert (n_handles s) (open_handles s))
       else open_handles s)"
proof -
  obtain act0 kws where "s1 = after_s s a act0 kws"
    using assms by (rule prepare_ContinueE)
  then show "fm_set s1 = fm_set s" and "zombies s1 = zombies s" and "ui s1 = ui s"
    and "logged s1 = logged s"
    and "open_handles s1 =
      (if CHR ''s'' \<in> set (squash_flags (flags a))
       then insert (Suc (n_handles s)) (insert (n_handles s) (open_handles s))
       else open_handles s)"
    by simp_all
qed

section \<open>Properties of the spawn\<close>

lemma activate_ui_fields [simp]:
  "fm_set (activate_ui s v) = fm_set s"
  "open_handles (activate_ui s v) = open_handles s"
  "zombies (activate_ui s v) = zombies s"
  by (simp_all add: activate_ui_def log_exception_def runner_log_def Let_def split: option.splits)

lemma press_enter_fields [simp]:
  "fm_set (press_enter s l) = fm_set s"
  "open_handles (press_enter s l) = open_handles s"
  "zombies (press_enter s l) = zombies s"
  by (simp_all add: press_enter_def)

lemma after_spawn_fields [simp]:
  "fm_set (after_spawn s l p) = fm_set s"
  "open_handles (after_spawn s l p) = open_handles s"
  by (simp_all add: after_spawn_def split: option.splits)

lemma spawn_process_fields [simp]:
  "fm_set (fst (spawn_process w s l)) = fm_set s"
  "open_handles (fst (spawn_process w s l)) = open_handles s"
  by (simp_all add: spawn_process_def runner_log_def Let_def split: spawn.splits)

lemma before_try_fields [simp]:
  "fm_set (before_try s l) = fm_set s"
  "open_handles (before_try s l) = open_handles s"
  "zombies (before_try s l) = zombies s"
  by (simp_all add: before_try_def)

lemma run_no_fm:
  assumes "\<not> fm_set s"
  shows "run w s l = (before_try s l, Inl AttributeError)"
  using assms by (simp add: run_def before_try_def)

lemma run_fm:
  assumes "fm_set s"
    and "spawn_process w
           ((before_try s l)\<lparr>events := events (before_try s l)
               @ [EmitBefore (popen_kws (ctx l)) (ctx l)]\<rparr>) l = (s2, process, error)"
  shows "run w s l =
     ((if toggle_ui l
       then activate_ui (s2\<lparr>events := events s2 @ [EmitAfter (popen_kws (ctx l)) (ctx l) error]\<rparr>) True
       else s2\<lparr>events := events s2 @ [EmitAfter (popen_kws (ctx l)) (ctx l) error]\<rparr>),
      Inr process)"
  using assms by (simp add: run_def before_try_def Let_def)

lemma run_fields [simp]:
  "fm_set (fst (run w s l)) = fm_set s"
  "open_handles (fst (run w s l)) = open_handles s"
proof -
  let ?s1 = "(before_try s l)\<lparr>events := events (before_try s l)
               @ [EmitBefore (popen_kws (ctx l)) (ctx l)]\<rparr>"
  obtain s2 process error where sp: "spawn_process w ?s1 l = (s2, process, error)"
    by (cases "spawn_process w ?s1 l") auto
  have f: "fm_set s2 = fm_set s" and h: "open_handles s2 = open_handles s"
    using spawn_process_fields [of w ?s1 l] by (simp_all add: sp)
  show "fm_set (fst (run w s l)) = fm_set s"
  proof (cases "fm_set s")
    case True
    then show ?thesis by (simp add: run_fm [OF True sp] f)
  next
    case False
    then show ?thesis by (simp add: run_no_fm)
  qed
  show "open_handles (fst (run w s l)) = open_handles s"
  proof (cases "fm_set s")
    case True
    then show ?thesis by (simp add: run_fm [OF True sp] h)
  next
    case False
    then show ?thesis by (simp add: run_no_fm)
  qed
qed

lemma run_returns:
  assumes "fm_set s"
  shows "\<exists>process. snd (run w s l) = Inr process"
proof -
  let ?s1 = "(before_try s l)\<lparr>events := events (before_try s l)
               @ [EmitBefore (popen_kws (ctx l)) (ctx l)]\<rparr>"
  obtain s2 process error where sp: "spawn_process w ?s1 l = (s2, process, error)"
    by (cases "spawn_process w ?s1 l") auto
  show ?thesis by (simp add: run_fm [OF assms sp])
qed

text \<open>The detached spawn: what a call does from the UI toggle to its return statements.\<close>

lemma run_detached:
  assumes "fm_set s"
    and "has_flag CHR ''f'' l" and "\<not> has_flag CHR ''r'' l"
    and "\<not> wait (ctx l)" and "\<not> toggle_ui l" and "\<not> wait_for_enter l"
  shows "run w s l =
      (s\<lparr>events := events s @
           [EmitBefore (popen_kws (ctx l)) (ctx l),
            PopenForked (popen_kws (ctx l)) (popen_forked w (popen_kws (ctx l))),
            EmitAfter (popen_kws (ctx l)) (ctx l) None]\<rparr>,
       Inr None)"
proof -
  let ?s = "(before_try s l)\<lparr>events := events (before_try s l)
               @ [EmitBefore (popen_kws (ctx l)) (ctx l)]\<rparr>"
  have sp: "spawn_process w ?s l =
      (?s\<lparr>events := events ?s @
          [PopenForked (popen_kws (ctx l)) (popen_forked w (popen_kws (ctx l)))]\<rparr>, None, None)"
    using assms(2,3,4,6) by (simp add: spawn_process_def after_spawn_def press_enter_def Let_def)
  show ?thesis
    using assms(5) by (simp add: run_fm [OF assms(1) sp] before_try_def)
qed

lemmas example_defs =
  prepare_def new_context_def initial_locals_def defaults_def set_default_def has_key_def
  flag_p_def flag_s_def flag_f_def flag_w_def flag_r_def flag_t_def set_kw_def set_wait_def
  has_flag_def runner_log_def sudo_action_def term_action_def display_found_def
  run_def spawn_process_def after_spawn_def press_enter_def activate_ui_def
  log_exception_def pager_call_def Runner_init_def default_call_def host_def
  squash_flags_def char_eval Let_def

lemma defaults_shell_set:
  assumes "map_of (environ w) ''SHELL'' = Some sh"
  shows "\<exists>kws. defaults w act0 kws0 = Inr kws"
  using assms by (simp add: defaults_def Let_def)

lemma prepare_not_Raised:
  assumes "map_of (environ w) ''SHELL'' = Some sh"
  shows "snd (prepare w s a) \<noteq> Raised e"
proof (cases "action a")
  case None
  then show ?thesis by (simp add: prepare_def runner_log_def)
next
  case (Some act0)
  obtain kws where k: "defaults w act0 (popen_kws a) = Inr kws"
    using defaults_shell_set [OF assms] by blast
  show ?thesis
    by (simp add: prepare_Some [OF Some k] split: prod.splits sum.splits)
qed

section \<open>Claims about Runner.\_\_call\_\_\<close>

text \<open>
  With the runner's \<open>fm\<close> set and \<open>SHELL\<close> in the environment, a call returns a value:
  \<open>False\<close>, \<open>None\<close> or a process object.
\<close>

lemma execute_returns:
  assumes "fm_set s" and "map_of (environ w) ''SHELL'' = Some sh"
  shows "\<exists>r. snd (execute w s a) = Inr r"
  using assms
proof (induction w s a rule: execute.induct)
  case (1 w s a)
  obtain s1 o1 where p: "prepare w s a = (s1, o1)"
    by (cases "prepare w s a") auto
  show ?case
  proof (cases o1)
    case (Raised e)
    then show ?thesis
      using prepare_not_Raised [OF "1.prems"(2), of s a e] p by simp
  next
    case (Returned r)
    then show ?thesis
      using p by (simp add: execute.simps)
  next
    case (Continue l)
    have fm1: "fm_set s1"
      using prepare_Continue_state(1) [of w s a s1 l] p Continue "1.prems"(1) by simp
    obtain s2 process where r: "run w s1 l = (s2, Inr process)"
      using run_returns [OF fm1, of w l] by (cases "run w s1 l") auto
    have fm2: "fm_set s2"
      using run_fields(1) [of w s1 l] r fm1 by simp
    show ?thesis
    proof (cases process)
      case None
      then show ?thesis
        using p Continue r by (simp add: execute.simps)
    next
      case (Some pr)
      show ?thesis
      proof (cases "pipe_output l")
        case True
        have "\<exists>r. snd (execute w s2 (pager_call pr)) = Inr r"
          using "1.IH" [of s1 o1 l s2 "Inr process" process pr] p Continue r Some True fm2 "1.prems"(2)
          by simp
        then show ?thesis
          using p Continue r Some True by (simp add: execute.simps)
      next
        case False
        then show ?thesis
          using p Continue r Some by (simp add: execute.simps)
      qed
    qed
  qed
qed

text \<open>
  Claim C1 says that no exception escapes from \<open>__call__\<close>, whatever the input. The code
  breaks it on the example of its own module docstring, \<open>run = Runner(logfunc=print)\<close>
  and \<open>run('sleep 2', wait=True)\<close>: \<open>fm\<close> is \<open>None\<close> there, \<open>self.fm.signal_emit\<close> raises
  \<open>AttributeError\<close> in the \<open>try\<close> block and again in the \<open>finally\<close> clause, and the exception
  leaves the call.
\<close>

theorem docstring_example_raises:
  "snd (execute (host [(''SHELL'', ''/bin/sh'')] []) (Runner_init None True False)
          (default_call\<lparr>action := Some (Cmd ''sleep 2''), wait := True\<rparr>))
     = Inl AttributeError"
  by (simp add: execute.simps example_defs)









text \<open>
  Claim C3 (amended). When the squashed flags contain \<open>f\<close> and not \<open>r\<close>, a call that reaches
  the spawn on a runner whose \<open>fm\<close> is set does exactly this: it emits the signal before,
  calls the detached-spawn primitive, and emits the signal after. It calls neither
  \<open>Popen\<close> nor \<open>wait\<close> nor \<open>input\<close>, leaves the zombie set as it was and returns \<open>None\<close>,
  whatever the detached-spawn primitive returned.
\<close>

theorem fork_flag_without_r:
  assumes "CHR ''f'' \<in> set (squash_flags (flags a))"
    and "CHR ''r'' \<notin> set (squash_flags (flags a))"
    and "prepare w s a = (s1, Continue l)"
    and "fm_set s"
  shows "execute w s a =
      (s1\<lparr>events := events s1 @
           [EmitBefore (popen_kws (ctx l)) (ctx l),
            PopenForked (popen_kws (ctx l)) (popen_forked w (popen_kws (ctx l))),
            EmitAfter (popen_kws (ctx l)) (ctx l) None]\<rparr>,
       Inr RNone)
    \<and> zombies s1 = zombies s"
proof -
  note ls = prepare_Continue_locals [OF assms(3)]
  have f: "has_flag CHR ''f'' l" and r: "\<not> has_flag CHR ''r'' l"
    using ls(1) assms(1,2) by simp_all
  have w: "\<not> wait (ctx l)" and t: "\<not> toggle_ui l" and e: "\<not> wait_for_enter l"
    using ls(3,4,5) assms(1,2) by simp_all
  have fm1: "fm_set s1"
    using prepare_Continue_state(1) [OF assms(3)] assms(4) by simp
  have "execute w s a =
      (s1\<lparr>events := events s1 @
           [EmitBefore (popen_kws (ctx l)) (ctx l),
            PopenForked (popen_kws (ctx l)) (popen_forked w (popen_kws (ctx l))),
            EmitAfter (popen_kws (ctx l)) (ctx l) None]\<rparr>,
       Inr RNone)"
    by (simp add: execute.simps assms(3) run_detached [OF fm1 f r w t e])
  then show ?thesis
    using prepare_Continue_state(2) [OF assms(3)] by simp
qed

theorem fork_flag_without_r_witness:
  "snd (execute (host [(''SHELL'', ''/bin/sh'')] [])
          (Runner_init (Some (UI False False)) True True)
          (default_call\<lparr>action := Some (Argv [''sleep'', ''2'']), flags := ''fw''\<rparr>)) = Inr RNone"
proof -
  let ?w = "host [(''SHELL'', ''/bin/sh'')] []"
  let ?s = "Runner_init (Some (UI False False)) True True"
  let ?a = "default_call\<lparr>action := Some (Argv [''sleep'', ''2'']), flags := ''fw''\<rparr>"
  have sq: "squash_flags ''fw'' = ''fw''"
    by (simp add: squash_flags_def char_eval)
  have "\<exists>s1 l. prepare ?w ?s ?a = (s1, Continue l)"
    by (simp add: example_defs)
  then obtain s1 l where p: "prepare ?w ?s ?a = (s1, Continue l)"
    by blast
  have fm: "fm_set ?s"
    by (simp add: Runner_init_def)
  show ?thesis
    using fork_flag_without_r [OF _ _ p fm] by (simp add: sq default_call_def)
qed

text \<open>
  Claim C3 as stated fails: after a successful detached spawn under the flag \<open>f\<close> the
  zombie set is still empty, and the call has returned \<open>None\<close>.
\<close>

theorem fork_flag_registers_no_zombie:
  "zombies (fst (execute (host [(''SHELL'', ''/bin/sh'')] []) (Runner_init None True True)
                  (default_call\<lparr>action := Some (Cmd ''true''), flags := ''f''\<rparr>))) = {}
   \<and> snd (execute (host [(''SHELL'', ''/bin/sh'')] []) (Runner_init None True True)
                  (default_call\<lparr>action := Some (Cmd ''true''), flags := ''f''\<rparr>)) = Inr RNone"
  by (simp add: execute.simps example_defs)

lemma prepare_open_handles:
  "open_handles s \<subseteq> open_handles (fst (prepare w s a))"
proof (cases "action a")
  case None
  then show ?thesis by (simp add: prepare_def runner_log_def)
next
  case (Some act0)
  show ?thesis
  proof (cases "defaults w act0 (popen_kws a)")
    case (Inl e)
    then show ?thesis using Some by (simp add: prepare_def)
  next
    case (Inr kws)
    have r: "open_handles (fst (flag_r w s' l')) = open_handles s'" for s' l'
      by (simp add: flag_r_def runner_log_def)
    have t: "open_handles (fst (flag_t w s' l')) = open_handles s'" for s' l'
      by (simp add: flag_t_def runner_log_def)
    obtain s2 r2 where fr: "flag_r w (after_s s a act0 kws) (psfw s a act0 kws) = (s2, r2)"
      by (cases "flag_r w (after_s s a act0 kws) (psfw s a act0 kws)") auto
    have h2: "open_handles s2 = open_handles (after_s s a act0 kws)"
      using r [of "after_s s a act0 kws" "psfw s a act0 kws"] fr by simp
    have "open_handles (fst (prepare w s a)) = open_handles (after_s s a act0 kws)"
    proof (cases r2)
      case (Inl x)
      then show ?thesis
        using fr h2 by (simp add: prepare_Some [OF Some Inr])
    next
      case l2: (Inr l2)
      obtain s3 r3 where ft: "flag_t w s2 l2 = (s3, r3)"
        by (cases "flag_t w s2 l2") auto
      have h3: "open_handles s3 = open_handles s2"
        using t [of s2 l2] ft by simp
      show ?thesis
        using fr l2 ft h2 h3 by (simp add: prepare_Some [OF Some Inr] split: sum.splits)
    qed
    then show ?thesis by auto
  qed
qed

lemma execute_open_handles:
  "open_handles s \<subseteq> open_handles (fst (execute w s a))"
proof (induction w s a rule: execute.induct)
  case (1 w s a)
  obtain s1 o1 where p: "prepare w s a = (s1, o1)"
    by (cases "prepare w s a") auto
  have s1: "open_handles s \<subseteq> open_handles s1"
    using prepare_open_handles [of s w a] p by simp
  show ?case
  proof (cases o1)
    case (Raised e)
    then show ?thesis using p s1 by (simp add: execute.simps)
  next
    case (Returned r)
    then show ?thesis using p s1 by (simp add: execute.simps)
  next
    case (Continue l)
    obtain s2 r where r: "run w s1 l = (s2, r)"
      by (cases "run w s1 l") auto
    have s2: "open_handles s2 = open_handles s1"
      using run_fields(2) [of w s1 l] r by simp
    show ?thesis
    proof (cases r)
      case (Inl e)
      then show ?thesis using p Continue r s1 s2 by (simp add: execute.simps)
    next
      case (Inr process)
      show ?thesis
      proof (cases process)
        case None
        then show ?thesis using p Continue r Inr s1 s2 by (simp add: execute.simps)
      next
        case (Some pr)
        show ?thesis
        proof (cases "pipe_output l")
          case True
          have "open_handles s2 \<subseteq> open_handles (fst (execute w s2 (pager_call pr)))"
            using "1.IH" [of s1 o1 l s2 r process pr] p Continue r Inr Some True by simp
          then show ?thesis
            using p Continue r Inr Some True s1 s2 by (simp add: execute.simps)
        next
          case False
          then show ?thesis using p Continue r Inr Some s1 s2 by (simp add: execute.simps)
        qed
      qed
    qed
  qed
qed

text \<open>
  Claim C4 (what the code does). When the squashed flags contain \<open>s\<close>, the two handles on
  the null device opened by a call that reaches the spawn are still open when the call
  returns, whether the spawn succeeded or not.
\<close>

theorem devnull_handles_stay_open:
  assumes "CHR ''s'' \<in> set (squash_flags (flags a))"
    and "prepare w s a = (s1, Continue l)"
  shows "n_handles s \<in> open_handles (fst (execute w s a))
    \<and> Suc (n_handles s) \<in> open_handles (fst (execute w s a))"
proof -
  obtain s2 r where r: "run w s1 l = (s2, r)"
    by (cases "run w s1 l") auto
  have s1: "n_handles s \<in> open_handles s1 \<and> Suc (n_handles s) \<in> open_handles s1"
    using prepare_Continue_state(5) [OF assms(2)] assms(1) by simp
  have s2: "open_handles s2 = open_handles s1"
    using run_fields(2) [of w s1 l] r by simp
  have "open_handles s2 \<subseteq> open_handles (fst (execute w s a))"
    using execute_open_handles [of s2 w] assms(2) r
    by (auto simp: execute.simps split: sum.splits option.splits)
  then show ?thesis
    using s1 s2 by auto
qed

theorem devnull_handles_stay_open_witness:
  "open_handles (fst (execute (host [(''SHELL'', ''/bin/sh'')] []) (Runner_init None True True)
                       (default_call\<lparr>action := Some (Cmd ''true''), flags := ''s''\<rparr>))) = {0, 1}"
proof -
  let ?w = "host [(''SHELL'', ''/bin/sh'')] []"
  let ?s = "Runner_init None True True"
  let ?a = "default_call\<lparr>action := Some (Cmd ''true''), flags := ''s''\<rparr>"
  have sq: "squash_flags ''s'' = ''s''"
    by (simp add: squash_flags_def char_eval)
  have "\<exists>s1 l. prepare ?w ?s ?a = (s1, Continue l)"
    by (simp add: example_defs)
  then obtain s1 l where p: "prepare ?w ?s ?a = (s1, Continue l)"
    by blast
  have "n_handles ?s \<in> open_handles (fst (execute ?w ?s ?a))
    \<and> Suc (n_handles ?s) \<in> open_handles (fst (execute ?w ?s ?a))"
    using devnull_handles_stay_open [OF _ p] by (simp add: sq default_call_def)
  moreover have "open_handles (fst (execute ?w ?s ?a)) \<subseteq> {0, 1}"
    by (simp add: execute.simps example_defs)
  ultimately show ?thesis
    by (auto simp: Runner_init_def)
qed

text \<open>
  Claim C5 (amended). When the squashed flags contain \<open>r\<close>, \<open>sudo\<close> is not among the
  executables and the call does not fail on the lookup of \<open>SHELL\<close>, the call returns
  \<open>False\<close> and passes one message to \<open>_log\<close>, which hands it to the log function when one
  is set; it emits no signal and calls no spawn primitive, and the clause for \<open>r\<close> returns
  before the statement that rewrites the action.
\<close>

theorem r_flag_without_sudo:
  assumes "CHR ''r'' \<in> set (squash_flags (flags a))"
    and "''sudo'' \<notin> set (executables w)"
    and "\<forall>act0. action a = Some act0 \<longrightarrow> (\<exists>kws. defaults w act0 (popen_kws a) = Inr kws)"
  shows "snd (execute w s a) = Inr RFalse
    \<and> logged (fst (execute w s a)) =
        (if logfunc_set s
         then logged s @
           [if action a = None then Msg ''No way of determining the action!''
            else Msg ''Can not run with 'r' flag, sudo is not installed!'']
         else logged s)
    \<and> events (fst (execute w s a)) =
        events s @ (if action a \<noteq> None \<and> CHR ''s'' \<in> set (squash_flags (flags a))
                    then [OpenDevnull (n_handles s), OpenDevnull (Suc (n_handles s))] else [])
    \<and> (\<forall>s' l. has_flag CHR ''r'' l \<longrightarrow>
          flag_r w s' l =
            (fst (runner_log s' (Msg ''Can not run with 'r' flag, sudo is not installed!'')),
             Inl RFalse))"
proof -
  have fr: "flag_r w s' l =
      (fst (runner_log s' (Msg ''Can not run with 'r' flag, sudo is not installed!'')), Inl RFalse)"
    if "has_flag CHR ''r'' l" for s' l
    using that assms(2) by (simp add: flag_r_def runner_log_def)
  show ?thesis
  proof (cases "action a")
    case None
    then have "execute w s a =
        (fst (runner_log s (Msg ''No way of determining the action!'')), Inr RFalse)"
      by (simp add: execute.simps prepare_def runner_log_def)
    then show ?thesis
      using None fr by (simp add: runner_log_def)
  next
    case (Some act0)
    obtain kws where k: "defaults w act0 (popen_kws a) = Inr kws"
      using assms(3) Some by blast
    have r: "has_flag CHR ''r'' (psfw s a act0 kws)"
      using assms(1) by simp
    have "execute w s a =
        (fst (runner_log (after_s s a act0 kws)
                (Msg ''Can not run with 'r' flag, sudo is not installed!'')), Inr RFalse)"
      by (simp add: execute.simps prepare_Some [OF Some k] fr [OF r])
    then show ?thesis
      using Some fr by (simp add: runner_log_def)
  qed
qed

theorem r_flag_without_sudo_witness:
  "snd (execute (host [(''SHELL'', ''/bin/sh'')] []) (Runner_init None True True)
          (default_call\<lparr>action := Some (Cmd ''ls''), flags := ''r''\<rparr>)) = Inr RFalse
   \<and> logged (fst (execute (host [(''SHELL'', ''/bin/sh'')] []) (Runner_init None True True)
          (default_call\<lparr>action := Some (Cmd ''ls''), flags := ''r''\<rparr>))) =
       [Msg ''Can not run with 'r' flag, sudo is not installed!'']
   \<and> events (fst (execute (host [(''SHELL'', ''/bin/sh'')] []) (Runner_init None True True)
          (default_call\<lparr>action := Some (Cmd ''ls''), flags := ''r''\<rparr>))) = []"
proof -
  let ?w = "host [(''SHELL'', ''/bin/sh'')] []"
  let ?s = "Runner_init None True True"
  let ?a = "default_call\<lparr>action := Some (Cmd ''ls''), flags := ''r''\<rparr>"
  have sq: "squash_flags ''r'' = ''r''"
    by (simp add: squash_flags_def char_eval)
  have k: "\<forall>act0. action ?a = Some act0 \<longrightarrow> (\<exists>kws. defaults ?w act0 (popen_kws ?a) = Inr kws)"
    by (simp add: example_defs)
  have r: "CHR ''r'' \<in> set (squash_flags (flags ?a))"
    by (simp add: sq default_call_def)
  have e: "''sudo'' \<notin> set (executables ?w)"
    by (simp add: host_def)
  show ?thesis
    using r_flag_without_sudo [OF r e k, of ?s]
    by (simp add: sq default_call_def host_def Runner_init_def)
qed

text \<open>
  Claim C5 as stated fails: without \<open>SHELL\<close> in the environment, a call with a command
  string, the flag \<open>r\<close> and no \<open>sudo\<close> raises \<open>KeyError\<close> before the flags are evaluated; it
  returns nothing and logs nothing. And on a runner without a log function the message
  reaches no log.
\<close>

theorem r_flag_without_shell_raises:
  "snd (execute (host [] []) (Runner_init None True True)
          (default_call\<lparr>action := Some (Cmd ''ls''), flags := ''r''\<rparr>))
     = Inl (KeyError ''SHELL'')
   \<and> logged (fst (execute (host [] []) (Runner_init None True True)
          (default_call\<lparr>action := Some (Cmd ''ls''), flags := ''r''\<rparr>))) = []
   \<and> logged (fst (execute (host [(''SHELL'', ''/bin/sh'')] []) (Runner_init None False True)
          (default_call\<lparr>action := Some (Cmd ''ls''), flags := ''r''\<rparr>))) = []"
  by (simp add: execute.simps example_defs)



lemma run_spawn_failed:
  assumes "fm_set s"
    and "\<not> (has_flag CHR ''f'' l \<and> \<not> has_flag CHR ''r'' l)"
    and "popen w (popen_kws (ctx l)) = OSError ex"
  shows "\<exists>s2. run w s l = (s2, Inr None)"
proof -
  let ?s1 = "(before_try s l)\<lparr>events := events (before_try s l)
               @ [EmitBefore (popen_kws (ctx l)) (ctx l)]\<rparr>"
  have "\<exists>s2. spawn_process w ?s1 l = (s2, None, Some ex)"
    using assms(2,3) by (simp add: spawn_process_def Let_def)
  then obtain s2 where sp: "spawn_process w ?s1 l = (s2, None, Some ex)"
    by blast
  show ?thesis
    by (simp add: run_fm [OF assms(1) sp])
qed

text \<open>
  Claim C10 (amended). The call returns \<open>False\<close> when a precondition fails: no action, or,
  in a call that did not fail on the lookup of \<open>SHELL\<close>, the flag \<open>r\<close> without \<open>sudo\<close> or the
  flag \<open>t\<close> without a display. On a runner whose \<open>fm\<close> is set it returns \<open>None\<close>, a different
  value, when \<open>Popen\<close> raised \<open>OSError\<close>, and also after the detached spawn under \<open>f\<close>
  without \<open>r\<close>, whatever the primitive returned.
\<close>

theorem failure_sentinels:
  "(action a = None \<longrightarrow> snd (execute w s a) = Inr RFalse)
   \<and> (action a = Some act0 \<and> defaults w act0 (popen_kws a) = Inr kws
        \<and> CHR ''r'' \<in> set (squash_flags (flags a)) \<and> ''sudo'' \<notin> set (executables w)
      \<longrightarrow> snd (execute w s a) = Inr RFalse)
   \<and> (action a = Some act0 \<and> defaults w act0 (popen_kws a) = Inr kws
        \<and> (CHR ''r'' \<in> set (squash_flags (flags a)) \<longrightarrow> ''sudo'' \<in> set (executables w))
        \<and> CHR ''t'' \<in> set (squash_flags (flags a)) \<and> \<not> display_found w
      \<longrightarrow> snd (execute w s a) = Inr RFalse)
   \<and> (prepare w s a = (s1, Continue l) \<and> fm_set s
        \<and> \<not> (CHR ''f'' \<in> set (squash_flags (flags a)) \<and> CHR ''r'' \<notin> set (squash_flags (flags a)))
        \<and> popen w (popen_kws (ctx l)) = OSError ex
      \<longrightarrow> snd (execute w s a) = Inr RNone)
   \<and> (prepare w s a = (s1, Continue l) \<and> fm_set s
        \<and> CHR ''f'' \<in> set (squash_flags (flags a)) \<and> CHR ''r'' \<notin> set (squash_flags (flags a))
      \<longrightarrow> snd (execute w s a) = Inr RNone)
   \<and> RFalse \<noteq> RNone"
proof (intro conjI impI)
  assume "action a = None"
  then show "snd (execute w s a) = Inr RFalse"
    by (simp add: execute.simps prepare_def runner_log_def)
next
  assume h: "action a = Some act0 \<and> defaults w act0 (popen_kws a) = Inr kws
        \<and> CHR ''r'' \<in> set (squash_flags (flags a)) \<and> ''sudo'' \<notin> set (executables w)"
  then have a: "action a = Some act0" and k: "defaults w act0 (popen_kws a) = Inr kws"
    by simp_all
  show "snd (execute w s a) = Inr RFalse"
    using h by (simp add: execute.simps prepare_Some [OF a k] flag_r_def runner_log_def)
next
  assume h: "action a = Some act0 \<and> defaults w act0 (popen_kws a) = Inr kws
        \<and> (CHR ''r'' \<in> set (squash_flags (flags a)) \<longrightarrow> ''sudo'' \<in> set (executables w))
        \<and> CHR ''t'' \<in> set (squash_flags (flags a)) \<and> \<not> display_found w"
  then have a: "action a = Some act0" and k: "defaults w act0 (popen_kws a) = Inr kws"
    by simp_all
  have "\<exists>l2. flag_r w (after_s s a act0 kws) (psfw s a act0 kws)
      = (after_s s a act0 kws, Inr l2)"
    using h by (auto simp: flag_r_def)
  then obtain l2 where r: "flag_r w (after_s s a act0 kws) (psfw s a act0 kws)
      = (after_s s a act0 kws, Inr l2)"
    by blast
  have "has_flag CHR ''t'' l2"
    using flag_r_Inr(1) [OF r, of "CHR ''t''"] h by simp
  then have "\<exists>s3. flag_t w (after_s s a act0 kws) l2 = (s3, Inl RFalse)"
    using h by (simp add: flag_t_def runner_log_def)
  then obtain s3 where t: "flag_t w (after_s s a act0 kws) l2 = (s3, Inl RFalse)"
    by blast
  show "snd (execute w s a) = Inr RFalse"
    by (simp add: execute.simps prepare_Some [OF a k] r t)
next
  assume h: "prepare w s a = (s1, Continue l) \<and> fm_set s
        \<and> \<not> (CHR ''f'' \<in> set (squash_flags (flags a)) \<and> CHR ''r'' \<notin> set (squash_flags (flags a)))
        \<and> popen w (popen_kws (ctx l)) = OSError ex"
  then have p: "prepare w s a = (s1, Continue l)"
    by simp
  have fm1: "fm_set s1"
    using prepare_Continue_state(1) [OF p] h by simp
  have nf: "\<not> (has_flag CHR ''f'' l \<and> \<not> has_flag CHR ''r'' l)"
    using prepare_Continue_locals(1) [OF p] h by simp
  obtain s2 where r: "run w s1 l = (s2, Inr None)"
    using run_spawn_failed [OF fm1 nf] h by blast
  show "snd (execute w s a) = Inr RNone"
    by (simp add: execute.simps p r)
next
  assume h: "prepare w s a = (s1, Continue l) \<and> fm_set s
        \<and> CHR ''f'' \<in> set (squash_flags (flags a)) \<and> CHR ''r'' \<notin> set (squash_flags (flags a))"
  then have p: "prepare w s a = (s1, Continue l)"
    by simp
  note ls = prepare_Continue_locals [OF p]
  have f: "has_flag CHR ''f'' l" and r: "\<not> has_flag CHR ''r'' l"
    using ls(1) h by simp_all
  have w: "\<not> wait (ctx l)" and t: "\<not> toggle_ui l" and e: "\<not> wait_for_enter l"
    using ls(3,4,5) h by simp_all
  have fm1: "fm_set s1"
    using prepare_Continue_state(1) [OF p] h by simp
  show "snd (execute w s a) = Inr RNone"
    by (simp add: execute.simps p run_detached [OF fm1 f r w t e])
next
  show "RFalse \<noteq> RNone"
    by simp
qed

theorem failure_sentinels_witness:
  "snd (execute (host [(''SHELL'', ''/bin/sh'')] []) (Runner_init None True True) default_call)
     = Inr RFalse
   \<and> snd (execute (host [(''SHELL'', ''/bin/sh'')] []) (Runner_init None True True)
            (default_call\<lparr>action := Some (Cmd ''ls''), flags := ''r''\<rparr>)) = Inr RFalse
   \<and> snd (execute (host [(''SHELL'', ''/bin/sh'')] []) (Runner_init None True True)
            (default_call\<lparr>action := Some (Cmd ''ls''), flags := ''t''\<rparr>)) = Inr RFalse
   \<and> snd (execute ((host [(''SHELL'', ''/bin/sh'')] [])\<lparr>popen := \<lambda>_. OSError ''No such file''\<rparr>)
            (Runner_init None True True)
            (default_call\<lparr>action := Some (Argv [''nosuch''])\<rparr>)) = Inr RNone"
proof -
  let ?w = "host [(''SHELL'', ''/bin/sh'')] []"
  let ?s = "Runner_init None True True"
  let ?kws = "[(''shell'', VBool True), (''executable'', VStr ''/bin/sh''),
               (''stdout'', VStream SysStdout), (''stderr'', VStream SysStderr)]"
  note hyp_defs = defaults_def set_default_def has_key_def host_def default_call_def
    display_found_def squash_flags_def char_eval Let_def
  have a: "snd (execute ?w ?s default_call) = Inr RFalse"
    using failure_sentinels [of default_call ?w ?s] by (simp add: default_call_def)
  have b: "snd (execute ?w ?s (default_call\<lparr>action := Some (Cmd ''ls''), flags := ''r''\<rparr>))
      = Inr RFalse"
    using failure_sentinels [of "default_call\<lparr>action := Some (Cmd ''ls''), flags := ''r''\<rparr>"
        ?w ?s "Cmd ''ls''" ?kws]
    by (simp add: hyp_defs)
  have c: "snd (execute ?w ?s (default_call\<lparr>action := Some (Cmd ''ls''), flags := ''t''\<rparr>))
      = Inr RFalse"
    using failure_sentinels [of "default_call\<lparr>action := Some (Cmd ''ls''), flags := ''t''\<rparr>"
        ?w ?s "Cmd ''ls''" ?kws]
    by (simp add: hyp_defs)
  let ?w' = "?w\<lparr>popen := \<lambda>_. OSError ''No such file''\<rparr>"
  let ?a = "default_call\<lparr>action := Some (Argv [''nosuch''])\<rparr>"
  have "\<exists>s1 l. prepare ?w' ?s ?a = (s1, Continue l)"
    by (simp add: example_defs)
  then obtain s1 l where p: "prepare ?w' ?s ?a = (s1, Continue l)"
    by blast
  have d: "snd (execute ?w' ?s ?a) = Inr RNone"
    using failure_sentinels [of ?a ?w' ?s _ _ s1 l "''No such file''"] p
    by (simp add: host_def Runner_init_def default_call_def squash_flags_def)
  show ?thesis
    using a b c d by simp
qed

text \<open>
  Claim C10 as stated fails: without \<open>SHELL\<close> in the environment, a call with a command
  string and the flag \<open>t\<close> on a host without a display raises \<open>KeyError\<close> instead of
  returning \<open>False\<close>.
\<close>

theorem t_flag_without_shell_raises:
  "snd (execute (host [] []) (Runner_init None True True)
          (default_call\<lparr>action := Some (Cmd ''ls''), flags := ''t''\<rparr>))
     = Inl (KeyError ''SHELL'')"
  by (simp add: execute.simps example_defs)

end
